theory Spec2Isabelle
  imports Complex_Main "HOL-Library.Word" "HOL-Library.Log_Nat"
begin

section \<open>Progress tracking of the documentation portal (script.js)\<close>

text \<open>
  The script keeps the set of visited section ids in \<^verbatim>\<open>state.visitedSections\<close> (a JavaScript
  \<^verbatim>\<open>Set\<close>), shows a completion percentage, and mirrors the set into \<^verbatim>\<open>localStorage\<close> as a
  JSON record. The functions embedded here are \<^verbatim>\<open>markSectionVisited\<close>,
  \<^verbatim>\<open>updateProgressDisplay\<close>, \<^verbatim>\<open>saveUserProgress\<close>, \<^verbatim>\<open>loadUserProgress\<close>, the callback of the
  section observer in \<^verbatim>\<open>initializeProgressTracking\<close>, and the part of the
  \<^verbatim>\<open>DOMContentLoaded\<close> handler that touches progress. The platform functions they call
  (\<^verbatim>\<open>JSON.parse\<close>, \<^verbatim>\<open>JSON.stringify\<close>, the \<^verbatim>\<open>Set\<close> constructor, double arithmetic and
  \<^verbatim>\<open>Math.round\<close>) are modelled after ECMAScript.
\<close>

subsection \<open>Strings and numbers of JavaScript\<close>

text \<open>
  A JavaScript string is a sequence of 16-bit code units. \<open>js\<close> turns an ASCII literal
  into such a sequence.
\<close>

type_synonym jstring = "16 word list"

definition js :: "string \<Rightarrow> jstring" where
  "js s = map (\<lambda>c. of_nat (of_char c)) s"

text \<open>
  A Number is an IEEE 754 double. A finite double is represented by the rational it
  denotes; negative zero is identified with zero (the program never divides by a value
  that could be a negative zero, the two zeros are the same element of a \<^verbatim>\<open>Set\<close>, both
  are falsy and both print as \<^verbatim>\<open>0\<close>).
\<close>

datatype jsnum = Fin rat | PosInf | NegInf | NaN

definition pow2 :: "int \<Rightarrow> rat" where
  "pow2 e = (if 0 \<le> e then of_int (2 ^ nat e) else 1 / of_int (2 ^ nat (- e)))"

text \<open>\<open>ilog2 x\<close> is the binary exponent of a positive rational: \<open>2 ^ e \<le> x < 2 ^ (e + 1)\<close>.\<close>

definition ilog2 :: "rat \<Rightarrow> int" where
  "ilog2 x = (case quotient_of x of (a, b) \<Rightarrow>
     (let d = bitlen a - bitlen b
      in if pow2 d \<le> x then d else d - 1))"

definition round_ties_even :: "rat \<Rightarrow> int" where
  "round_ties_even x = (let f = \<lfloor>x\<rfloor>; r = x - of_int f in
     if r < 1 / 2 then f else if 1 / 2 < r then f + 1 else if even f then f else f + 1)"

text \<open>
  Rounding of a positive real to the nearest double, ties to even: 53 significant bits,
  exponents from \<open>-1022\<close> (below it the spacing stays \<open>2 ^ -1074\<close>, the subnormal range),
  overflow to infinity.
\<close>

definition double_of_pos :: "rat \<Rightarrow> jsnum" where
  "double_of_pos x = (let e = max (ilog2 x) (- 1022); u = pow2 (e - 52);
       y = of_int (round_ties_even (x / u)) * u
     in if pow2 1024 \<le> y then PosInf else Fin y)"

fun negate :: "jsnum \<Rightarrow> jsnum" where
  "negate (Fin x) = Fin (- x)"
| "negate PosInf = NegInf"
| "negate NegInf = PosInf"
| "negate NaN = NaN"

definition to_double :: "rat \<Rightarrow> jsnum" where
  "to_double x = (if x = 0 then Fin 0 else if 0 < x then double_of_pos x
                  else negate (double_of_pos (- x)))"

text \<open>
  The three operations of \<^verbatim>\<open>Math.round((completedCount / totalCount) * 100)\<close>. Both
  operands of the division are sizes, so non-negative integers; a size is far below
  \<open>2 ^ 53\<close> and therefore exactly a double.
\<close>

definition divide :: "nat \<Rightarrow> nat \<Rightarrow> jsnum" where
  "divide a b = (if b = 0 then (if a = 0 then NaN else PosInf)
                 else to_double (of_nat a / of_nat b))"

definition times100 :: "jsnum \<Rightarrow> jsnum" where
  "times100 n = (case n of Fin x \<Rightarrow> to_double (x * 100) | _ \<Rightarrow> n)"

definition Math_round :: "jsnum \<Rightarrow> jsnum" where
  "Math_round n = (case n of Fin x \<Rightarrow> Fin (of_int \<lfloor>x + 1 / 2\<rfloor>) | _ \<Rightarrow> n)"

subsection \<open>Values and JSON.parse\<close>

text \<open>
  The values the program handles: what \<^verbatim>\<open>JSON.parse\<close> returns, \<^verbatim>\<open>undefined\<close> for a missing
  property and for the result of a function without \<^verbatim>\<open>return\<close>. An object is the list of
  its own properties in property order.
\<close>

datatype jsval = JUndefined | JNull | JBool bool | JNum jsnum | JStr jstring
  | JArr "jsval list" | JObj "(jstring \<times> jsval) list"

datatype js_error = SyntaxError | TypeError

text \<open>
  The parser below follows the JSON grammar that \<^verbatim>\<open>JSON.parse\<close> accepts. Nested values
  are parsed with a fuel counter; \<open>Fuel\<close> is the result when it runs out, which
  \<open>JSON_parse\<close> never lets happen (lemma \<open>JSON_parse_fuel\<close>).
\<close>

datatype 'a parsed = Parsed 'a jstring | Bad | Fuel

definition is_ws :: "16 word \<Rightarrow> bool" where
  "is_ws c = (c = 0x20 \<or> c = 0x09 \<or> c = 0x0A \<or> c = 0x0D)"

fun skip_ws :: "jstring \<Rightarrow> jstring" where
  "skip_ws [] = []"
| "skip_ws (c # cs) = (if is_ws c then skip_ws cs else c # cs)"

definition is_digit :: "16 word \<Rightarrow> bool" where
  "is_digit c = (0x30 \<le> c \<and> c \<le> 0x39)"

definition digit_val :: "16 word \<Rightarrow> nat" where
  "digit_val c = unat c - 48"

definition hex_val :: "16 word \<Rightarrow> nat option" where
  "hex_val c = (if 0x30 \<le> c \<and> c \<le> 0x39 then Some (unat c - 48)
     else if 0x41 \<le> c \<and> c \<le> 0x46 then Some (unat c - 55)
     else if 0x61 \<le> c \<and> c \<le> 0x66 then Some (unat c - 87)
     else None)"

definition hex4 :: "16 word \<Rightarrow> 16 word \<Rightarrow> 16 word \<Rightarrow> 16 word \<Rightarrow> 16 word option" where
  "hex4 a b c d = (case (hex_val a, hex_val b, hex_val c, hex_val d) of
      (Some x, Some y, Some z, Some w) \<Rightarrow> Some (of_nat (((x * 16 + y) * 16 + z) * 16 + w))
    | _ \<Rightarrow> None)"

text \<open>The single-character escapes: quote, backslash, slash, b, f, n, r, t.\<close>

definition unescape :: "16 word \<Rightarrow> 16 word option" where
  "unescape e = (if e = 0x22 then Some 0x22 else if e = 0x5C then Some 0x5C
     else if e = 0x2F then Some 0x2F else if e = 0x62 then Some 0x08
     else if e = 0x66 then Some 0x0C else if e = 0x6E then Some 0x0A
     else if e = 0x72 then Some 0x0D else if e = 0x74 then Some 0x09 else None)"

definition cons_fst :: "'a \<Rightarrow> ('a list \<times> 'b) option \<Rightarrow> ('a list \<times> 'b) option" where
  "cons_fst c r = (case r of None \<Rightarrow> None | Some (s, rest) \<Rightarrow> Some (c # s, rest))"

text \<open>
  The characters of a string literal after its opening quote, up to the closing quote:
  the decoded string and the rest of the input.
\<close>

fun parse_chars :: "jstring \<Rightarrow> (jstring \<times> jstring) option" where
  "parse_chars [] = None"
| "parse_chars (c # cs) =
    (if c = 0x22 then Some ([], cs)
     else if c = 0x5C then
       (case cs of
          [] \<Rightarrow> None
        | e # r \<Rightarrow>
            if e = 0x75 then
              (case r of
                 h1 # h2 # h3 # h4 # r' \<Rightarrow>
                   (case hex4 h1 h2 h3 h4 of None \<Rightarrow> None
                    | Some w \<Rightarrow> cons_fst w (parse_chars r'))
               | _ \<Rightarrow> None)
            else (case unescape e of None \<Rightarrow> None
                  | Some w \<Rightarrow> cons_fst w (parse_chars r)))
     else if c < 0x20 then None
     else cons_fst c (parse_chars cs))"

fun take_digits :: "jstring \<Rightarrow> nat list \<times> jstring" where
  "take_digits [] = ([], [])"
| "take_digits (c # cs) =
    (if is_digit c then (case take_digits cs of (ds, r) \<Rightarrow> (digit_val c # ds, r))
     else ([], c # cs))"

definition digits_value :: "nat list \<Rightarrow> nat" where
  "digits_value ds = foldl (\<lambda>a d. a * 10 + d) 0 ds"

definition pow10 :: "int \<Rightarrow> rat" where
  "pow10 e = (if 0 \<le> e then of_int (10 ^ nat e) else 1 / of_int (10 ^ nat (- e)))"

definition parse_int_part :: "jstring \<Rightarrow> (nat \<times> jstring) option" where
  "parse_int_part s = (case s of
       [] \<Rightarrow> None
     | c # cs \<Rightarrow>
         if c = 0x30 then Some (0, cs)
         else if is_digit c then
           (case take_digits (c # cs) of (ds, r) \<Rightarrow> Some (digits_value ds, r))
         else None)"

definition parse_frac :: "jstring \<Rightarrow> (rat \<times> jstring) option" where
  "parse_frac s = (case s of
       [] \<Rightarrow> Some (0, [])
     | c # cs \<Rightarrow>
         if c = 0x2E then
           (case take_digits cs of
              ([], _) \<Rightarrow> None
            | (d # ds, r) \<Rightarrow>
                Some (of_nat (digits_value (d # ds)) / 10 ^ length (d # ds), r))
         else Some (0, c # cs))"

definition parse_exp :: "jstring \<Rightarrow> (int \<times> jstring) option" where
  "parse_exp s = (case s of
       [] \<Rightarrow> Some (0, [])
     | c # cs \<Rightarrow>
         if c = 0x65 \<or> c = 0x45 then
           (case cs of
              [] \<Rightarrow> None
            | d # ds \<Rightarrow>
                (case take_digits (if d = 0x2B \<or> d = 0x2D then ds else d # ds) of
                   ([], _) \<Rightarrow> None
                 | (e # es, r) \<Rightarrow>
                     Some ((if d = 0x2D then - 1 else 1) * int (digits_value (e # es)), r)))
         else Some (0, c # cs))"

text \<open>
  A number literal: optional minus, integer part without leading zeros, optional
  fraction, optional exponent. Its value is the double nearest to the decimal.
\<close>

definition parse_number :: "jstring \<Rightarrow> (jsnum \<times> jstring) option" where
  "parse_number s =
    (let neg = (case s of [] \<Rightarrow> False | c # _ \<Rightarrow> c = 0x2D);
         s1 = (if neg then tl s else s)
     in case parse_int_part s1 of
          None \<Rightarrow> None
        | Some (i, s2) \<Rightarrow>
            (case parse_frac s2 of
               None \<Rightarrow> None
             | Some (f, s3) \<Rightarrow>
                 (case parse_exp s3 of
                    None \<Rightarrow> None
                  | Some (e, s4) \<Rightarrow>
                      (let m = (of_nat i + f) * pow10 e
                       in Some (to_double (if neg then - m else m), s4)))))"

fun strip_prefix :: "jstring \<Rightarrow> jstring \<Rightarrow> jstring option" where
  "strip_prefix [] s = Some s"
| "strip_prefix (p # ps) [] = None"
| "strip_prefix (p # ps) (c # cs) = (if p = c then strip_prefix ps cs else None)"

text \<open>
  The own properties of an object are kept in property order: array indices (canonical
  decimal strings below \<open>2 ^ 32 - 1\<close>) first, ascending, then the other keys in the order
  of their creation. A repeated key keeps its place and takes the later value.
\<close>

definition array_index :: "jstring \<Rightarrow> nat option" where
  "array_index k = (case k of
       [] \<Rightarrow> None
     | c # cs \<Rightarrow>
         if list_all is_digit k \<and> (c \<noteq> 0x30 \<or> cs = []) then
           (let n = digits_value (map digit_val k)
            in if int n < 2 ^ 32 - 1 then Some n else None)
         else None)"

fun insert_prop :: "jstring \<Rightarrow> jsval \<Rightarrow> (jstring \<times> jsval) list \<Rightarrow> (jstring \<times> jsval) list" where
  "insert_prop k v [] = [(k, v)]"
| "insert_prop k v ((k', v') # ps) =
    (case array_index k of
       None \<Rightarrow> (k', v') # insert_prop k v ps
     | Some i \<Rightarrow>
         (case array_index k' of
            None \<Rightarrow> (k, v) # (k', v') # ps
          | Some j \<Rightarrow>
              if j < i then (k', v') # insert_prop k v ps else (k, v) # (k', v') # ps))"

definition CreateDataProperty ::
  "(jstring \<times> jsval) list \<Rightarrow> jstring \<times> jsval \<Rightarrow> (jstring \<times> jsval) list" where
  "CreateDataProperty ps kv =
    (if fst kv \<in> fst ` set ps then map (\<lambda>p. if fst p = fst kv then kv else p) ps
     else insert_prop (fst kv) (snd kv) ps)"

definition make_object :: "(jstring \<times> jsval) list \<Rightarrow> (jstring \<times> jsval) list" where
  "make_object ms = foldl CreateDataProperty [] ms"

fun parse_value :: "nat \<Rightarrow> jstring \<Rightarrow> jsval parsed"
  and parse_elements :: "nat \<Rightarrow> jstring \<Rightarrow> jsval list parsed"
  and parse_members :: "nat \<Rightarrow> jstring \<Rightarrow> (jstring \<times> jsval) list parsed"
where
  "parse_value 0 s = Fuel"
| "parse_value (Suc n) s =
    (case skip_ws s of
       [] \<Rightarrow> Bad
     | c # cs \<Rightarrow>
         if c = 0x22 then
           (case parse_chars cs of None \<Rightarrow> Bad | Some (t, r) \<Rightarrow> Parsed (JStr t) r)
         else if c = 0x5B then
           (case skip_ws cs of
              [] \<Rightarrow> Bad
            | d # ds \<Rightarrow>
                if d = 0x5D then Parsed (JArr []) ds
                else (case parse_elements n cs of
                        Parsed vs r \<Rightarrow> Parsed (JArr vs) r
                      | Bad \<Rightarrow> Bad
                      | Fuel \<Rightarrow> Fuel))
         else if c = 0x7B then
           (case skip_ws cs of
              [] \<Rightarrow> Bad
            | d # ds \<Rightarrow>
                if d = 0x7D then Parsed (JObj []) ds
                else (case parse_members n cs of
                        Parsed ms r \<Rightarrow> Parsed (JObj (make_object ms)) r
                      | Bad \<Rightarrow> Bad
                      | Fuel \<Rightarrow> Fuel))
         else
           (case strip_prefix (js ''null'') (c # cs) of
              Some r \<Rightarrow> Parsed JNull r
            | None \<Rightarrow>
                (case strip_prefix (js ''true'') (c # cs) of
                   Some r \<Rightarrow> Parsed (JBool True) r
                 | None \<Rightarrow>
                     (case strip_prefix (js ''false'') (c # cs) of
                        Some r \<Rightarrow> Parsed (JBool False) r
                      | None \<Rightarrow>
                          (case parse_number (c # cs) of
                             None \<Rightarrow> Bad
                           | Some (x, r) \<Rightarrow> Parsed (JNum x) r)))))"
| "parse_elements 0 s = Fuel"
| "parse_elements (Suc n) s =
    (case parse_value n s of
       Parsed v r \<Rightarrow>
         (case skip_ws r of
            [] \<Rightarrow> Bad
          | d # ds \<Rightarrow>
              if d = 0x2C then
                (case parse_elements n ds of
                   Parsed vs r' \<Rightarrow> Parsed (v # vs) r'
                 | Bad \<Rightarrow> Bad
                 | Fuel \<Rightarrow> Fuel)
              else if d = 0x5D then Parsed [v] ds
              else Bad)
     | Bad \<Rightarrow> Bad
     | Fuel \<Rightarrow> Fuel)"
| "parse_members 0 s = Fuel"
| "parse_members (Suc n) s =
    (case skip_ws s of
       [] \<Rightarrow> Bad
     | q # qs \<Rightarrow>
         if q \<noteq> 0x22 then Bad
         else
           (case parse_chars qs of
              None \<Rightarrow> Bad
            | Some (k, r) \<Rightarrow>
                (case skip_ws r of
                   [] \<Rightarrow> Bad
                 | col # r1 \<Rightarrow>
                     if col \<noteq> 0x3A then Bad
                     else
                       (case parse_value n r1 of
                          Parsed v r2 \<Rightarrow>
                            (case skip_ws r2 of
                               [] \<Rightarrow> Bad
                             | d # ds \<Rightarrow>
                                 if d = 0x2C then
                                   (case parse_members n ds of
                                      Parsed ms r3 \<Rightarrow> Parsed ((k, v) # ms) r3
                                    | Bad \<Rightarrow> Bad
                                    | Fuel \<Rightarrow> Fuel)
                                 else if d = 0x7D then Parsed [(k, v)] ds
                                 else Bad)
                        | Bad \<Rightarrow> Bad
                        | Fuel \<Rightarrow> Fuel))))"

text \<open>
  \<^verbatim>\<open>JSON.parse(text)\<close>: one value, surrounded by optional white space, or a
  \<^verbatim>\<open>SyntaxError\<close>.
\<close>

definition JSON_parse :: "jstring \<Rightarrow> js_error + jsval" where
  "JSON_parse s = (case parse_value (2 * length s + 2) s of
       Parsed v r \<Rightarrow> if skip_ws r = [] then Inr v else Inl SyntaxError
     | Bad \<Rightarrow> Inl SyntaxError
     | Fuel \<Rightarrow> Inl SyntaxError)"

subsection \<open>JSON.stringify\<close>

definition is_high_surrogate :: "16 word \<Rightarrow> bool" where
  "is_high_surrogate c = (0xD800 \<le> c \<and> c \<le> 0xDBFF)"

definition is_low_surrogate :: "16 word \<Rightarrow> bool" where
  "is_low_surrogate c = (0xDC00 \<le> c \<and> c \<le> 0xDFFF)"

text \<open>
  A string is iterated by code points: a high surrogate followed by a low surrogate is
  one code point of two code units, every other code unit stands alone.
\<close>

fun code_points :: "jstring \<Rightarrow> jstring list" where
  "code_points [] = []"
| "code_points [c] = [[c]]"
| "code_points (c # d # cs) =
    (if is_high_surrogate c \<and> is_low_surrogate d then [c, d] # code_points cs
     else [c] # code_points (d # cs))"

definition hex_digit :: "nat \<Rightarrow> 16 word" where
  "hex_digit n = (if n < 10 then of_nat (48 + n) else of_nat (87 + n))"

definition UnicodeEscape :: "16 word \<Rightarrow> jstring" where
  "UnicodeEscape c = (let n = unat c in
     [0x5C, 0x75, hex_digit (n div 4096), hex_digit (n div 256 mod 16),
      hex_digit (n div 16 mod 16), hex_digit (n mod 16)])"

text \<open>
  How \<^verbatim>\<open>JSON.stringify\<close> writes one code point inside a string literal: the short escapes,
  a \<^verbatim>\<open>\u\<close> escape for the other control characters and for a surrogate that stands
  alone, the code point itself otherwise.
\<close>

definition quote_code_point :: "jstring \<Rightarrow> jstring" where
  "quote_code_point p = (case p of
       [c] \<Rightarrow>
         if c = 0x08 then [0x5C, 0x62]
         else if c = 0x09 then [0x5C, 0x74]
         else if c = 0x0A then [0x5C, 0x6E]
         else if c = 0x0C then [0x5C, 0x66]
         else if c = 0x0D then [0x5C, 0x72]
         else if c = 0x22 then [0x5C, 0x22]
         else if c = 0x5C then [0x5C, 0x5C]
         else if c < 0x20 \<or> is_high_surrogate c \<or> is_low_surrogate c then UnicodeEscape c
         else [c]
     | _ \<Rightarrow> p)"

definition QuoteJSONString :: "jstring \<Rightarrow> jstring" where
  "QuoteJSONString s = 0x22 # concat (map quote_code_point (code_points s)) @ [0x22]"

fun join_comma :: "jstring list \<Rightarrow> jstring" where
  "join_comma [] = []"
| "join_comma [x] = x"
| "join_comma (x # y # ys) = x @ 0x2C # join_comma (y # ys)"

text \<open>
  The serialisation of a value, without indentation. The digits \<^verbatim>\<open>Number::toString\<close>
  chooses for a finite number are left to the platform: the formatter \<open>nf\<close> is a
  parameter. In an array \<^verbatim>\<open>undefined\<close> is written \<^verbatim>\<open>null\<close>; in an object a property whose
  value is \<^verbatim>\<open>undefined\<close> is left out.
\<close>

fun SerializeJSONProperty :: "(rat \<Rightarrow> jstring) \<Rightarrow> jsval \<Rightarrow> jstring option" where
  "SerializeJSONProperty nf JUndefined = None"
| "SerializeJSONProperty nf JNull = Some (js ''null'')"
| "SerializeJSONProperty nf (JBool b) = Some (if b then js ''true'' else js ''false'')"
| "SerializeJSONProperty nf (JNum n) = Some (case n of Fin x \<Rightarrow> nf x | _ \<Rightarrow> js ''null'')"
| "SerializeJSONProperty nf (JStr s) = Some (QuoteJSONString s)"
| "SerializeJSONProperty nf (JArr vs) =
    Some (0x5B # join_comma (map (\<lambda>v. case SerializeJSONProperty nf v of
                                           None \<Rightarrow> js ''null'' | Some t \<Rightarrow> t) vs) @ [0x5D])"
| "SerializeJSONProperty nf (JObj ps) =
    Some (0x7B # join_comma (concat (map (\<lambda>p. case SerializeJSONProperty nf (snd p) of
                                           None \<Rightarrow> []
                                         | Some t \<Rightarrow> [QuoteJSONString (fst p) @ 0x3A # t]) ps))
          @ [0x7D])"

definition JSON_stringify :: "(rat \<Rightarrow> jstring) \<Rightarrow> jsval \<Rightarrow> jsval" where
  "JSON_stringify nf v =
    (case SerializeJSONProperty nf v of None \<Rightarrow> JUndefined | Some t \<Rightarrow> JStr t)"

text \<open>\<^verbatim>\<open>localStorage.setItem\<close> stores the string of its argument.\<close>

definition ToString :: "jsval \<Rightarrow> jstring" where
  "ToString v = (case v of JStr s \<Rightarrow> s | _ \<Rightarrow> js ''undefined'')"

subsection \<open>The Set of visited sections\<close>

text \<open>
  A \<^verbatim>\<open>Set\<close> is the list of its elements in insertion order. Strings, numbers, booleans,
  \<^verbatim>\<open>null\<close> and \<^verbatim>\<open>undefined\<close> are compared by value. Arrays and objects are compared by
  identity: the only ones this program ever puts into the set come fresh out of
  \<^verbatim>\<open>JSON.parse\<close>, so none of them is found in a set it is added to.
\<close>

definition is_primitive :: "jsval \<Rightarrow> bool" where
  "is_primitive v = (case v of JArr _ \<Rightarrow> False | JObj _ \<Rightarrow> False | _ \<Rightarrow> True)"

definition Set_has :: "jsval list \<Rightarrow> jsval \<Rightarrow> bool" where
  "Set_has s v = (is_primitive v \<and> v \<in> set s)"

definition Set_add :: "jsval list \<Rightarrow> jsval \<Rightarrow> jsval list" where
  "Set_add s v = (if Set_has s v then s else s @ [v])"

text \<open>
  \<^verbatim>\<open>new Set(iterable)\<close>: empty for \<^verbatim>\<open>undefined\<close> and \<^verbatim>\<open>null\<close>, the elements of an array,
  the code points of a string, a \<^verbatim>\<open>TypeError\<close> for a value that is not iterable.
\<close>

definition new_Set :: "jsval \<Rightarrow> js_error + jsval list" where
  "new_Set iterable = (case iterable of
       JUndefined \<Rightarrow> Inr []
     | JNull \<Rightarrow> Inr []
     | JArr vs \<Rightarrow> Inr (foldl Set_add [] vs)
     | JStr s \<Rightarrow> Inr (foldl Set_add [] (map JStr (code_points s)))
     | _ \<Rightarrow> Inl TypeError)"

text \<open>Truthiness, as the operator \<^verbatim>\<open>||\<close> and \<^verbatim>\<open>if\<close> test it.\<close>

definition ToBoolean :: "jsval \<Rightarrow> bool" where
  "ToBoolean v = (case v of
       JUndefined \<Rightarrow> False
     | JNull \<Rightarrow> False
     | JBool b \<Rightarrow> b
     | JNum n \<Rightarrow> n \<noteq> Fin 0 \<and> n \<noteq> NaN
     | JStr s \<Rightarrow> s \<noteq> []
     | _ \<Rightarrow> True)"

text \<open>
  Reading a property that no built-in prototype defines (the program reads
  \<^verbatim>\<open>visitedSections\<close>): a \<^verbatim>\<open>TypeError\<close> on \<^verbatim>\<open>null\<close> and \<^verbatim>\<open>undefined\<close>, the own property of an
  object, \<^verbatim>\<open>undefined\<close> otherwise.
\<close>

definition get_property :: "jsval \<Rightarrow> jstring \<Rightarrow> js_error + jsval" where
  "get_property v k = (case v of
       JUndefined \<Rightarrow> Inl TypeError
     | JNull \<Rightarrow> Inl TypeError
     | JObj ps \<Rightarrow> Inr (case map_of ps k of None \<Rightarrow> JUndefined | Some x \<Rightarrow> x)
     | _ \<Rightarrow> Inr JUndefined)"

subsection \<open>The program state\<close>

text \<open>
  What the progress functions read and write: \<^verbatim>\<open>state.visitedSections\<close>; the number of
  \<^verbatim>\<open>.section\<close> elements (\<^verbatim>\<open>elements.sections.length\<close>, fixed when the script loads); the numbers
  shown in the elements \<^verbatim>\<open>completedSections\<close>, \<^verbatim>\<open>progressPercentage\<close> (followed by a percent
  sign on the page) and \<^verbatim>\<open>totalSections\<close>, \<open>None\<close> while the script has not written them;
  \<^verbatim>\<open>localStorage\<close>; what was written to the console by \<^verbatim>\<open>loadUserProgress\<close>; the string
  \<^verbatim>\<open>new Date().toISOString()\<close> returns now; and the platform's number formatter.
  The DOM elements are taken to exist and \<^verbatim>\<open>localStorage.setItem\<close> to succeed.
\<close>

datatype console_entry = LogLoaded nat | LogError js_error

record world =
  visitedSections :: "jsval list"
  sections_length :: nat
  completedSections :: "nat option"
  progressPercentage :: "jsnum option"
  totalSections :: "nat option"
  localStorage :: "jstring \<Rightarrow> jstring option"
  console :: "console_entry list"
  clock :: jstring
  NumberToString :: "rat \<Rightarrow> jstring"

text \<open>\<^verbatim>\<open>CONFIG.STORAGE_KEYS.PROGRESS\<close> (line 10).\<close>

definition PROGRESS :: jstring where
  "PROGRESS = js ''webdev-docs-progress''"

text \<open>
  \<^verbatim>\<open>updateProgressDisplay\<close> (lines 369-379). \<^verbatim>\<open>animateNumber\<close> reads back the text just written
  to \<^verbatim>\<open>completedSections\<close>, finds it equal to its target and starts no timer.
\<close>

definition updateProgressDisplay :: "world \<Rightarrow> world" where
  "updateProgressDisplay w =
    (let completedCount = length (visitedSections w);
         totalCount = sections_length w;
         percentage = Math_round (times100 (divide completedCount totalCount))
     in w\<lparr>completedSections := Some completedCount, progressPercentage := Some percentage\<rparr>)"

text \<open>\<^verbatim>\<open>saveUserProgress\<close> (lines 434-441).\<close>

definition saveUserProgress :: "world \<Rightarrow> world" where
  "saveUserProgress w =
    (let progress = JObj [(js ''visitedSections'', JArr (visitedSections w)),
                          (js ''lastVisited'', JStr (clock w))]
     in w\<lparr>localStorage := (localStorage w)
            (PROGRESS \<mapsto> ToString (JSON_stringify (NumberToString w) progress))\<rparr>)"

text \<open>
  \<^verbatim>\<open>markSectionVisited\<close> (lines 361-367). Its callers pass the \<^verbatim>\<open>id\<close> attribute of an element
  (a string, or \<^verbatim>\<open>null\<close> when the element has none) or the tail of an \<^verbatim>\<open>href\<close> (a string):
  \<open>None\<close> is \<^verbatim>\<open>null\<close>. The function has no \<^verbatim>\<open>return\<close> statement, so its result is
  \<^verbatim>\<open>undefined\<close>.
\<close>

definition sectionId_value :: "jstring option \<Rightarrow> jsval" where
  "sectionId_value i = (case i of None \<Rightarrow> JNull | Some s \<Rightarrow> JStr s)"

definition markSectionVisited :: "jstring option \<Rightarrow> world \<Rightarrow> jsval \<times> world" where
  "markSectionVisited sectionId w =
    (if \<not> Set_has (visitedSections w) (sectionId_value sectionId) then
       (JUndefined,
        saveUserProgress (updateProgressDisplay
          (w\<lparr>visitedSections := Set_add (visitedSections w) (sectionId_value sectionId)\<rparr>)))
     else (JUndefined, w))"

text \<open>
  \<^verbatim>\<open>loadUserProgress\<close> (lines 443-457). \<open>loadUserProgress_try\<close> is the body of its \<^verbatim>\<open>try\<close>
  block: \<open>Inl\<close> is the exception thrown, which the \<^verbatim>\<open>catch\<close> clause logs. The set is
  assigned only after \<^verbatim>\<open>new Set\<close> has returned, so an exception leaves the state as it
  was. An empty string is falsy: \<^verbatim>\<open>if (savedProgress)\<close> skips it like a missing record.
\<close>

definition loadUserProgress_try :: "jstring \<Rightarrow> world \<Rightarrow> js_error + world" where
  "loadUserProgress_try savedProgress w =
    (case JSON_parse savedProgress of
       Inl e \<Rightarrow> Inl e
     | Inr progress \<Rightarrow>
         (case get_property progress (js ''visitedSections'') of
            Inl e \<Rightarrow> Inl e
          | Inr vs \<Rightarrow>
              (case new_Set (if ToBoolean vs then vs else JArr []) of
                 Inl e \<Rightarrow> Inl e
               | Inr s \<Rightarrow>
                   (let w1 = updateProgressDisplay (w\<lparr>visitedSections := s\<rparr>)
                    in Inr (w1\<lparr>console := console w1
                                @ [LogLoaded (length (visitedSections w1))]\<rparr>)))))"

definition loadUserProgress :: "world \<Rightarrow> world" where
  "loadUserProgress w =
    (case localStorage w PROGRESS of
       None \<Rightarrow> w
     | Some savedProgress \<Rightarrow>
         if savedProgress = [] then w
         else (case loadUserProgress_try savedProgress w of
                 Inr w' \<Rightarrow> w'
               | Inl e \<Rightarrow> w\<lparr>console := console w @ [LogError e]\<rparr>))"

text \<open>
  The callback of the section observer in \<^verbatim>\<open>initializeProgressTracking\<close> (lines 337-344),
  applied to each entry in turn. An entry carries \<^verbatim>\<open>isIntersecting\<close>,
  \<^verbatim>\<open>intersectionRatio\<close> (a double between 0 and 1) and its target, of which only the \<^verbatim>\<open>id\<close>
  attribute is read.
\<close>

record entry =
  isIntersecting :: bool
  intersectionRatio :: rat
  target_id :: "jstring option"

definition observe_entry :: "world \<Rightarrow> entry \<Rightarrow> world" where
  "observe_entry w e =
    (if isIntersecting e \<and> 1 / 2 < intersectionRatio e
     then snd (markSectionVisited (target_id e) w) else w)"

definition sectionObserver :: "entry list \<Rightarrow> world \<Rightarrow> world" where
  "sectionObserver entries w = foldl observe_entry w entries"

text \<open>
  The state when the script has been evaluated (lines 22-28: an empty set), on a page
  with \<open>n\<close> sections, and the progress part of the \<^verbatim>\<open>DOMContentLoaded\<close> handler (lines
  58-72): \<^verbatim>\<open>initializeProgressTracking\<close> only registers listeners, \<^verbatim>\<open>loadUserProgress\<close> reads
  the stored record, then the number of sections is shown. The other initialisers touch
  theme, navigation, search, animations and the sidebar only. \<open>example_time\<close> is a time
  stamp for the examples.
\<close>

definition example_time :: jstring where
  "example_time = js ''2024-01-15T10:30:00.000Z''"

definition initial_world ::
  "nat \<Rightarrow> (jstring \<Rightarrow> jstring option) \<Rightarrow> jstring \<Rightarrow> (rat \<Rightarrow> jstring) \<Rightarrow> world" where
  "initial_world n store now nf =
    \<lparr>visitedSections = [], sections_length = n, completedSections = None,
     progressPercentage = None, totalSections = None, localStorage = store,
     console = [], clock = now, NumberToString = nf\<rparr>"

definition DOMContentLoaded :: "world \<Rightarrow> world" where
  "DOMContentLoaded w =
    (let w1 = loadUserProgress w in w1\<lparr>totalSections := Some (sections_length w1)\<rparr>)"

text \<open>A sequence of calls of \<^verbatim>\<open>markSectionVisited\<close>, one after the other.\<close>

fun markAll :: "jstring option list \<Rightarrow> world \<Rightarrow> world" where
  "markAll [] w = w"
| "markAll (i # is) w = markAll is (snd (markSectionVisited i w))"

section \<open>Properties\<close>

subsection \<open>The parser never runs out of fuel\<close>

text \<open>
  Every sub-parser that succeeds consumes input, so the depth of the recursion is bounded
  by the length of the text: with the fuel \<open>JSON_parse\<close> supplies, the result is never
  \<open>Fuel\<close>, and a \<^verbatim>\<open>SyntaxError\<close> always stands for text outside the JSON grammar.
\<close>

lemma skip_ws_length: "length (skip_ws s) \<le> length s"
  by (induction s) auto

lemma skip_ws_Cons_length: "skip_ws s = c # cs \<Longrightarrow> length cs < length s"
  using skip_ws_length [of s] by simp

lemma cons_fst_Some: "cons_fst c x = Some (t, r) \<Longrightarrow> \<exists>t'. x = Some (t', r)"
  by (auto simp: cons_fst_def split: option.splits)

lemma parse_chars_length: "parse_chars s = Some (t, r) \<Longrightarrow> length r < length s"
proof (induction "length s" arbitrary: s t rule: less_induct)
  case less
  have IH: "length r < length s'" if "length s' < length s" "parse_chars s' = Some (t', r)" for s' t'
    using less.hyps [OF that(1) that(2)] .
  show ?case
  proof (cases s)
    case Nil
    then show ?thesis using less.prems by simp
  next
    case (Cons c cs)
    show ?thesis
      using less.prems unfolding Cons
      by (auto split: if_splits list.splits option.splits dest!: cons_fst_Some
          dest!: IH [rotated] simp: Cons)
  qed
qed

lemma take_digits_length: "take_digits s = (ds, r) \<Longrightarrow> length r \<le> length s"
  by (induction s arbitrary: ds r) (auto split: if_splits prod.splits)

lemma strip_prefix_length: "strip_prefix p s = Some r \<Longrightarrow> length r \<le> length s"
  by (induction p s rule: strip_prefix.induct) (auto split: if_splits)

lemma strip_prefix_Cons_length: "strip_prefix (p # ps) s = Some r \<Longrightarrow> length r < length s"
  by (cases s) (auto split: if_splits dest: strip_prefix_length)

lemma parse_int_part_length: "parse_int_part s = Some (i, r) \<Longrightarrow> length r < length s"
  by (auto simp: parse_int_part_def split: list.splits if_splits prod.splits
      dest: take_digits_length)

lemma parse_frac_length: "parse_frac s = Some (f, r) \<Longrightarrow> length r \<le> length s"
  by (auto simp: parse_frac_def split: list.splits if_splits prod.splits
      dest: take_digits_length)

lemma parse_exp_length: "parse_exp s = Some (e, r) \<Longrightarrow> length r \<le> length s"
  by (auto simp: parse_exp_def split: list.splits if_splits prod.splits
      dest: take_digits_length)

lemma parse_number_length: "parse_number s = Some (x, r) \<Longrightarrow> length r < length s"
proof -
  assume a: "parse_number s = Some (x, r)"
  let ?s1 = "if (case s of [] \<Rightarrow> False | c # _ \<Rightarrow> c = 0x2D) then tl s else s"
  have s1: "length ?s1 \<le> length s" by simp
  from a obtain i s2 f s3 e where
    "parse_int_part ?s1 = Some (i, s2)" "parse_frac s2 = Some (f, s3)" "parse_exp s3 = Some (e, r)"
    by (auto simp: parse_number_def Let_def split: option.splits)
  then have "length s2 < length ?s1" "length s3 \<le> length s2" "length r \<le> length s3"
    by (auto dest: parse_int_part_length parse_frac_length parse_exp_length)
  with s1 show ?thesis by linarith
qed


lemma literal_length:
  "strip_prefix (js ''null'') s = Some r \<Longrightarrow> length r < length s"
  "strip_prefix (js ''true'') s = Some r \<Longrightarrow> length r < length s"
  "strip_prefix (js ''false'') s = Some r \<Longrightarrow> length r < length s"
  by (auto simp: js_def dest: strip_prefix_Cons_length)

lemma parse_consumes:
  "(\<forall>s v r. parse_value n s = Parsed v r \<longrightarrow> length r < length s)
   \<and> (\<forall>s vs r. parse_elements n s = Parsed vs r \<longrightarrow> length r < length s)
   \<and> (\<forall>s ms r. parse_members n s = Parsed ms r \<longrightarrow> length r < length s)"
proof (induction n)
  case 0
  show ?case by simp
next
  case (Suc n)
  have V: "length r < length s" if "parse_value n s = Parsed v r" for s v r
    using Suc that by blast
  have E: "length r < length s" if "parse_elements n s = Parsed vs r" for s vs r
    using Suc that by blast
  have M: "length r < length s" if "parse_members n s = Parsed ms r" for s ms r
    using Suc that by blast
  have v: "length r < length s" if a: "parse_value (Suc n) s = Parsed v r" for s v r
  proof (cases "skip_ws s")
    case Nil
    then show ?thesis using a by simp
  next
    case (Cons c cs)
    have cs: "length cs < length s" using Cons by (rule skip_ws_Cons_length)
    have w: "length (c # cs) \<le> length s" using cs by simp
    show ?thesis
      using a cs w unfolding parse_value.simps Cons
      by (auto split: if_splits list.splits option.splits parsed.splits
          dest!: parse_chars_length E M literal_length parse_number_length skip_ws_Cons_length)
  qed
  have e: "length r < length s" if a: "parse_elements (Suc n) s = Parsed vs r" for s vs r
    using a
    by (auto split: if_splits list.splits parsed.splits
        dest!: V E skip_ws_Cons_length)
  have m: "length r < length s" if a: "parse_members (Suc n) s = Parsed ms r" for s ms r
    using a
    by (auto split: if_splits list.splits option.splits parsed.splits
        dest!: V M parse_chars_length skip_ws_Cons_length)
  show ?case using v e m by blast
qed


lemma parse_value_consumes: "parse_value n s = Parsed v r \<Longrightarrow> length r < length s"
  using parse_consumes [of n] by blast

lemma parse_fuel:
  "(\<forall>s. 2 * length s + 1 \<le> n \<longrightarrow> parse_value n s \<noteq> Fuel)
   \<and> (\<forall>s. 2 * length s + 2 \<le> n \<longrightarrow> parse_elements n s \<noteq> Fuel)
   \<and> (\<forall>s. 2 * length s + 2 \<le> n \<longrightarrow> parse_members n s \<noteq> Fuel)"
proof (induction n)
  case 0
  show ?case by simp
next
  case (Suc n)
  have V: "parse_value n s \<noteq> Fuel" if "2 * length s + 1 \<le> n" for s
    using Suc that by blast
  have E: "parse_elements n s \<noteq> Fuel" if "2 * length s + 2 \<le> n" for s
    using Suc that by blast
  have M: "parse_members n s \<noteq> Fuel" if "2 * length s + 2 \<le> n" for s
    using Suc that by blast
  have v: "parse_value (Suc n) s \<noteq> Fuel" if a: "2 * length s + 1 \<le> Suc n" for s
  proof (cases "skip_ws s")
    case Nil
    then show ?thesis by simp
  next
    case (Cons c cs)
    have "length cs < length s" using Cons by (rule skip_ws_Cons_length)
    then have "2 * length cs + 2 \<le> n" using a by simp
    then have "parse_elements n cs \<noteq> Fuel" "parse_members n cs \<noteq> Fuel"
      using E M by simp_all
    then show ?thesis
      unfolding parse_value.simps Cons
      by (auto split: list.splits option.splits parsed.splits)
  qed
  have e: "parse_elements (Suc n) s \<noteq> Fuel" if a: "2 * length s + 2 \<le> Suc n" for s
  proof (cases "parse_value n s")
    case (Parsed v r)
    have r: "length r < length s" using Parsed by (rule parse_value_consumes)
    show ?thesis
    proof (cases "skip_ws r")
      case Nil
      then show ?thesis using Parsed by simp
    next
      case (Cons d ds)
      have "length ds < length r" using Cons by (rule skip_ws_Cons_length)
      then have "2 * length ds + 2 \<le> n" using a r by simp
      then have "parse_elements n ds \<noteq> Fuel" by (rule E)
      then show ?thesis
        using Parsed Cons by (auto split: parsed.splits)
    qed
  next
    case Bad
    then show ?thesis by simp
  next
    case Fuel
    moreover have "2 * length s + 1 \<le> n" using a by simp
    ultimately show ?thesis using V by blast
  qed
  have m: "parse_members (Suc n) s \<noteq> Fuel" if a: "2 * length s + 2 \<le> Suc n" for s
  proof -
    have F1: "parse_value n r1 \<noteq> Fuel"
      if h: "skip_ws s = q # qs" "parse_chars qs = Some (k, r)" "skip_ws r = col # r1"
      for q qs k r col r1
    proof -
      have "length qs < length s" "length r < length qs" "length r1 < length r"
        using h by (auto dest: skip_ws_Cons_length parse_chars_length)
      then have "2 * length r1 + 1 \<le> n" using a by simp
      then show ?thesis by (rule V)
    qed
    have F2: "parse_members n ds \<noteq> Fuel"
      if h: "skip_ws s = q # qs" "parse_chars qs = Some (k, r)" "skip_ws r = col # r1"
        "parse_value n r1 = Parsed v r2" "skip_ws r2 = d # ds"
      for q qs k r col r1 v r2 d ds
    proof -
      have "length qs < length s" "length r < length qs" "length r1 < length r"
        "length r2 < length r1" "length ds < length r2"
        using h by (auto dest: skip_ws_Cons_length parse_chars_length parse_value_consumes)
      then have "2 * length ds + 2 \<le> n" using a by simp
      then show ?thesis by (rule M)
    qed
    show ?thesis
    proof (cases "skip_ws s")
      case Nil
      then show ?thesis by simp
    next
      case (Cons q qs)
      show ?thesis
      proof (cases "parse_chars qs")
        case None
        then show ?thesis using Cons by simp
      next
        case (Some kr)
        obtain k r where kr: "kr = (k, r)" by (cases kr)
        show ?thesis
        proof (cases "skip_ws r")
          case Nil
          then show ?thesis using Cons Some kr by simp
        next
          case c2: (Cons col r1)
          have 1: "parse_value n r1 \<noteq> Fuel"
            using F1 [OF Cons] Some kr c2 by simp
          show ?thesis
          proof (cases "parse_value n r1")
            case (Parsed v r2)
            show ?thesis
            proof (cases "skip_ws r2")
              case Nil
              then show ?thesis using Cons Some kr c2 Parsed by simp
            next
              case c3: (Cons d ds)
              have "parse_members n ds \<noteq> Fuel"
                using F2 [OF Cons _ c2 Parsed c3] Some kr by simp
              then show ?thesis
                using Cons Some kr c2 Parsed c3 by (auto split: parsed.splits)
            qed
          next
            case Bad
            then show ?thesis using Cons Some kr c2 by simp
          next
            case Fuel
            then show ?thesis using 1 by simp
          qed
        qed
      qed
    qed
  qed
  show ?case using v e m by blast
qed

lemma JSON_parse_fuel: "parse_value (2 * length s + 2) s \<noteq> Fuel"
  using parse_fuel [of "2 * length s + 2"] by simp

subsection \<open>The visited set\<close>

lemma Set_add_set: "set (Set_add s v) = insert v (set s)"
  by (auto simp: Set_add_def Set_has_def)

lemma sectionId_value_primitive: "is_primitive (sectionId_value i)"
  by (simp add: sectionId_value_def is_primitive_def split: option.splits)

lemma visited_updateProgressDisplay:
  "visitedSections (updateProgressDisplay w) = visitedSections w"
  by (simp add: updateProgressDisplay_def Let_def)

lemma visited_saveUserProgress:
  "visitedSections (saveUserProgress w) = visitedSections w"
  by (simp add: saveUserProgress_def Let_def)

lemma visited_markSectionVisited:
  "visitedSections (snd (markSectionVisited i w)) =
     Set_add (visitedSections w) (sectionId_value i)"
  by (simp add: markSectionVisited_def Set_add_def visited_saveUserProgress
      visited_updateProgressDisplay)

lemma set_markAll:
  "set (visitedSections (markAll ids w)) = set (visitedSections w) \<union> sectionId_value ` set ids"
  by (induction ids arbitrary: w) (auto simp: visited_markSectionVisited Set_add_set)

lemma distinct_Set_add:
  "is_primitive v \<Longrightarrow> distinct s \<Longrightarrow> distinct (Set_add s v)"
  by (auto simp: Set_add_def Set_has_def)

lemma distinct_markAll:
  "distinct (visitedSections w) \<Longrightarrow> distinct (visitedSections (markAll ids w))"
  by (induction ids arbitrary: w)
    (auto simp: visited_markSectionVisited distinct_Set_add sectionId_value_primitive)

text \<open>
  C1. Starting from an empty set, after any finite sequence of calls of
  \<^verbatim>\<open>markSectionVisited\<close>, whatever the order and the repetitions, the set holds exactly the
  identifiers that were passed, each once.
\<close>

theorem C1_markAll_set_of_ids:
  "visitedSections w = [] \<Longrightarrow>
   set (visitedSections (markAll ids w)) = sectionId_value ` set ids
   \<and> distinct (visitedSections (markAll ids w))"
  using set_markAll [of ids w] distinct_markAll [of w ids] by simp

theorem C1_markAll_set_of_ids_witness:
  "visitedSections (initial_world 3 Map.empty [] (\<lambda>_. [])) = []
   \<and> set (visitedSections (markAll [Some [0x61], Some [0x62], Some [0x61], None, Some [0x62]]
            (initial_world 3 Map.empty [] (\<lambda>_. []))))
     = {JStr [0x61], JStr [0x62], JNull}
   \<and> distinct (visitedSections (markAll [Some [0x61], Some [0x62], Some [0x61], None, Some [0x62]]
            (initial_world 3 Map.empty [] (\<lambda>_. []))))"
  using C1_markAll_set_of_ids
    [of "initial_world 3 Map.empty [] (\<lambda>_. [])"
        "[Some [0x61], Some [0x62], Some [0x61], None, Some [0x62]]"]
  by (auto simp: initial_world_def sectionId_value_def)

subsection \<open>One call of markSectionVisited\<close>

lemma markSectionVisited_member:
  "Set_has (visitedSections w) (sectionId_value x) \<Longrightarrow> markSectionVisited x w = (JUndefined, w)"
  by (simp add: markSectionVisited_def)

lemma markSectionVisited_fresh:
  assumes "\<not> Set_has (visitedSections w) (sectionId_value x)"
  shows "markSectionVisited x w =
    (JUndefined,
     w\<lparr>visitedSections := visitedSections w @ [sectionId_value x],
       completedSections := Some (Suc (length (visitedSections w))),
       progressPercentage :=
         Some (Math_round (times100 (divide (Suc (length (visitedSections w))) (sections_length w)))),
       localStorage := (localStorage w)(PROGRESS \<mapsto>
         ToString (JSON_stringify (NumberToString w)
           (JObj [(js ''visitedSections'', JArr (visitedSections w @ [sectionId_value x])),
                  (js ''lastVisited'', JStr (clock w))])))\<rparr>)"
  using assms
  by (simp add: markSectionVisited_def Set_add_def saveUserProgress_def
      updateProgressDisplay_def Let_def)

lemma Set_has_after_mark:
  "Set_has (visitedSections (snd (markSectionVisited x w))) (sectionId_value x)"
  by (simp add: visited_markSectionVisited Set_has_def Set_add_set sectionId_value_primitive)

text \<open>
  C2, as the code has it. \<^verbatim>\<open>markSectionVisited\<close> returns \<^verbatim>\<open>undefined\<close> in both cases, never a
  boolean. When the identifier is already a member the call changes nothing: no display
  update and no write to \<^verbatim>\<open>localStorage\<close>. When it is not, the call appends it, and the record
  written under the progress key is the serialisation of the enlarged set; a second call
  with the same identifier changes nothing more, so the two calls together add exactly
  one element.
\<close>

theorem C2_markSectionVisited_effect:
  "fst (markSectionVisited x w) = JUndefined
   \<and> (Set_has (visitedSections w) (sectionId_value x) \<longrightarrow> snd (markSectionVisited x w) = w)
   \<and> (\<not> Set_has (visitedSections w) (sectionId_value x) \<longrightarrow>
        visitedSections (snd (markSectionVisited x w)) = visitedSections w @ [sectionId_value x]
        \<and> localStorage (snd (markSectionVisited x w)) PROGRESS =
            Some (ToString (JSON_stringify (NumberToString w)
              (JObj [(js ''visitedSections'', JArr (visitedSections w @ [sectionId_value x])),
                     (js ''lastVisited'', JStr (clock w))])))
        \<and> snd (markSectionVisited x (snd (markSectionVisited x w))) = snd (markSectionVisited x w)
        \<and> length (visitedSections (snd (markSectionVisited x (snd (markSectionVisited x w)))))
            = Suc (length (visitedSections w)))"
proof -
  have a: "fst (markSectionVisited x w) = JUndefined"
    by (simp add: markSectionVisited_def)
  have b: "snd (markSectionVisited x (snd (markSectionVisited x w))) = snd (markSectionVisited x w)"
    using markSectionVisited_member [OF Set_has_after_mark [of x w]] by simp
  show ?thesis
    using a b by (auto simp: markSectionVisited_member markSectionVisited_fresh)
qed

theorem C2_markSectionVisited_effect_witness:
  \<open>\<not> Set_has (visitedSections (initial_world 3 Map.empty example_time (\<lambda>_. [])))
        (sectionId_value (Some (js ''intro'')))
   \<and> fst (markSectionVisited (Some (js ''intro'')) (initial_world 3 Map.empty example_time (\<lambda>_. [])))
       = JUndefined
   \<and> visitedSections (snd (markSectionVisited (Some (js ''intro''))
         (initial_world 3 Map.empty example_time (\<lambda>_. [])))) = [JStr (js ''intro'')]
   \<and> localStorage (snd (markSectionVisited (Some (js ''intro''))
         (initial_world 3 Map.empty example_time (\<lambda>_. [])))) PROGRESS
       = Some (js ''{"visitedSections":["intro"],"lastVisited":"2024-01-15T10:30:00.000Z"}'')
   \<and> length (visitedSections (snd (markSectionVisited (Some (js ''intro''))
         (snd (markSectionVisited (Some (js ''intro''))
           (initial_world 3 Map.empty example_time (\<lambda>_. []))))))) = 1\<close>
proof -
  have s: \<open>ToString (JSON_stringify (\<lambda>_. [])
      (JObj [(js ''visitedSections'', JArr [JStr (js ''intro'')]),
             (js ''lastVisited'', JStr example_time)]))
      = js ''{"visitedSections":["intro"],"lastVisited":"2024-01-15T10:30:00.000Z"}''\<close>
    by code_simp
  show ?thesis
    using C2_markSectionVisited_effect
      [of "Some (js ''intro'')" "initial_world 3 Map.empty example_time (\<lambda>_. [])"] s
    by (simp add: initial_world_def sectionId_value_def Set_has_def)
qed

text \<open>
  C2 as stated fails: the first call with a fresh identifier does not return \<^verbatim>\<open>true\<close> and
  the second does not return \<^verbatim>\<open>false\<close>.
\<close>

theorem C2_returns_no_boolean:
  \<open>fst (markSectionVisited (Some (js ''intro'')) (initial_world 3 Map.empty example_time (\<lambda>_. [])))
     \<noteq> JBool True
   \<and> fst (markSectionVisited (Some (js ''intro''))
        (snd (markSectionVisited (Some (js ''intro''))
          (initial_world 3 Map.empty example_time (\<lambda>_. []))))) \<noteq> JBool False\<close>
  by (simp add: markSectionVisited_def)

subsection \<open>No precondition checks\<close>

text \<open>
  C6 as stated fails: before the \<^verbatim>\<open>DOMContentLoaded\<close> handler has run, on a page without
  sections, a call with the empty identifier is carried out like any other. It adds the
  empty string, shows an infinite percentage and writes the record.
\<close>

theorem C6_empty_id_accepted:
  \<open>markSectionVisited (Some []) (initial_world 0 Map.empty example_time (\<lambda>_. []))
   = (JUndefined,
      \<lparr>visitedSections = [JStr []], sections_length = 0, completedSections = Some 1,
       progressPercentage = Some PosInf, totalSections = None,
       localStorage =
         [PROGRESS \<mapsto> js ''{"visitedSections":[""],"lastVisited":"2024-01-15T10:30:00.000Z"}''],
       console = [], clock = example_time, NumberToString = (\<lambda>_. [])\<rparr>)\<close>
proof -
  have s: \<open>ToString (JSON_stringify (\<lambda>_. [])
      (JObj [(js ''visitedSections'', JArr [JStr []]),
             (js ''lastVisited'', JStr example_time)]))
      = js ''{"visitedSections":[""],"lastVisited":"2024-01-15T10:30:00.000Z"}''\<close>
    by code_simp
  have f: "\<not> Set_has (visitedSections (initial_world 0 Map.empty example_time (\<lambda>_. [])))
      (sectionId_value (Some []))"
    by (simp add: initial_world_def Set_has_def)
  show ?thesis
    unfolding markSectionVisited_fresh [OF f]
    using s
    by (simp add: initial_world_def sectionId_value_def divide_def times100_def Math_round_def)
qed

text \<open>
  C6, as the code has it. There is no lifecycle state and no argument check: in every
  state a call of \<^verbatim>\<open>markSectionVisited\<close> with the empty identifier returns \<^verbatim>\<open>undefined\<close> and
  leaves the empty string in the set, and with zero sections \<^verbatim>\<open>updateProgressDisplay\<close> shows
  \<^verbatim>\<open>NaN\<close> (nothing visited) or \<^verbatim>\<open>Infinity\<close> instead of failing.
\<close>

theorem C6_no_precondition_checks:
  "fst (markSectionVisited (Some []) w) = JUndefined
   \<and> JStr [] \<in> set (visitedSections (snd (markSectionVisited (Some []) w)))
   \<and> progressPercentage (updateProgressDisplay (w\<lparr>sections_length := 0\<rparr>))
       = Some (if visitedSections w = [] then NaN else PosInf)"
proof -
  have a: "fst (markSectionVisited (Some []) w) = JUndefined"
    by (simp add: markSectionVisited_def)
  have b: "JStr [] \<in> set (visitedSections (snd (markSectionVisited (Some []) w)))"
    by (simp add: visited_markSectionVisited Set_add_set sectionId_value_def)
  have c: "progressPercentage (updateProgressDisplay (w\<lparr>sections_length := 0\<rparr>))
       = Some (if visitedSections w = [] then NaN else PosInf)"
    by (simp add: updateProgressDisplay_def Let_def divide_def times100_def Math_round_def)
  show ?thesis using a b c by simp
qed

subsection \<open>Monotonicity\<close>

lemma subset_markSectionVisited:
  "set (visitedSections w) \<subseteq> set (visitedSections (snd (markSectionVisited i w)))"
  by (auto simp: visited_markSectionVisited Set_add_set)

lemma subset_observe_entry:
  "set (visitedSections w) \<subseteq> set (visitedSections (observe_entry w e))"
  using subset_markSectionVisited [of w "target_id e"] by (simp add: observe_entry_def)

lemma subset_sectionObserver:
  "set (visitedSections w) \<subseteq> set (visitedSections (sectionObserver entries w))"
  unfolding sectionObserver_def
proof (induction entries arbitrary: w)
  case Nil
  show ?case by simp
next
  case (Cons e es)
  show ?case
    using subset_observe_entry [of w e] Cons [of "observe_entry w e"] by auto
qed

lemma subset_markAll:
  "set (visitedSections w) \<subseteq> set (visitedSections (markAll ids w))"
proof (induction ids arbitrary: w)
  case Nil
  show ?case by simp
next
  case (Cons i ids)
  show ?case
    using subset_markSectionVisited [of w i] Cons [of "snd (markSectionVisited i w)"] by auto
qed

text \<open>
  C7. No operation of the tracker removes an identifier: every member of the set before
  \<^verbatim>\<open>markSectionVisited\<close> is a member after it, whether it is called once, by the observer
  for a batch of entries, or any number of times in a row; \<^verbatim>\<open>saveUserProgress\<close> and
  \<^verbatim>\<open>updateProgressDisplay\<close> leave the set as it is; and the one call of \<^verbatim>\<open>loadUserProgress\<close>, at
  start-up, finds the set empty.
\<close>

theorem C7_sections_never_shrink:
  "set (visitedSections w) \<subseteq> set (visitedSections (snd (markSectionVisited i w)))
   \<and> visitedSections (saveUserProgress w) = visitedSections w
   \<and> visitedSections (updateProgressDisplay w) = visitedSections w
   \<and> set (visitedSections w) \<subseteq> set (visitedSections (observe_entry w e))
   \<and> set (visitedSections w) \<subseteq> set (visitedSections (sectionObserver entries w))
   \<and> set (visitedSections w) \<subseteq> set (visitedSections (markAll ids w))
   \<and> set (visitedSections (initial_world n store now nf))
        \<subseteq> set (visitedSections (DOMContentLoaded (initial_world n store now nf)))"
  by (simp add: subset_markSectionVisited visited_saveUserProgress visited_updateProgressDisplay
      subset_observe_entry subset_sectionObserver subset_markAll initial_world_def)

subsection \<open>The observer's threshold\<close>

lemma sectionObserver_markAll:
  "sectionObserver entries w =
     markAll (map target_id
       (filter (\<lambda>e. isIntersecting e \<and> 1 / 2 < intersectionRatio e) entries)) w"
  unfolding sectionObserver_def
  by (induction entries arbitrary: w) (simp_all add: observe_entry_def)

lemma filter_delivered:
  "\<forall>e\<in>set entries. 1 / 2 < intersectionRatio e \<longrightarrow> isIntersecting e \<Longrightarrow>
   filter (\<lambda>e. isIntersecting e \<and> 1 / 2 < intersectionRatio e) entries
     = filter (\<lambda>e. 1 / 2 < intersectionRatio e) entries"
  by (rule filter_cong) auto

text \<open>
  C8. The callback of the section observer, given any batch of entries, calls
  \<^verbatim>\<open>markSectionVisited\<close> with the target's id for exactly the entries whose intersection ratio
  exceeds one half, in the order of the batch: the set afterwards is the set before
  together with the ids of those entries, a batch in which no ratio exceeds one half leaves
  the state alone, and so does each single entry at one half or below. The callback also
  tests \<^verbatim>\<open>isIntersecting\<close>, which holds for every entry the platform delivers with a positive
  ratio.
\<close>

theorem C8_observer_threshold:
  "\<forall>e\<in>set entries. 1 / 2 < intersectionRatio e \<longrightarrow> isIntersecting e \<Longrightarrow>
   sectionObserver entries w
     = markAll (map target_id (filter (\<lambda>e. 1 / 2 < intersectionRatio e) entries)) w
   \<and> set (visitedSections (sectionObserver entries w))
     = set (visitedSections w)
       \<union> {sectionId_value (target_id e) | e. e \<in> set entries \<and> 1 / 2 < intersectionRatio e}
   \<and> ((\<forall>e\<in>set entries. intersectionRatio e \<le> 1 / 2) \<longrightarrow> sectionObserver entries w = w)
   \<and> (\<forall>e\<in>set entries. \<forall>w'. observe_entry w' e =
         (if 1 / 2 < intersectionRatio e then snd (markSectionVisited (target_id e) w') else w'))"
proof -
  assume d: "\<forall>e\<in>set entries. 1 / 2 < intersectionRatio e \<longrightarrow> isIntersecting e"
  have a: "sectionObserver entries w
     = markAll (map target_id (filter (\<lambda>e. 1 / 2 < intersectionRatio e) entries)) w"
    using sectionObserver_markAll [of entries w] filter_delivered [OF d] by simp
  have b: "set (visitedSections (sectionObserver entries w))
     = set (visitedSections w)
       \<union> {sectionId_value (target_id e) | e. e \<in> set entries \<and> 1 / 2 < intersectionRatio e}"
    unfolding a set_markAll by auto
  have c: "(\<forall>e\<in>set entries. intersectionRatio e \<le> 1 / 2) \<longrightarrow> sectionObserver entries w = w"
  proof
    assume "\<forall>e\<in>set entries. intersectionRatio e \<le> 1 / 2"
    then have "filter (\<lambda>e. 1 / 2 < intersectionRatio e) entries = []"
      by (auto simp: filter_empty_conv)
    then show "sectionObserver entries w = w"
      using a by simp
  qed
  have e: "\<forall>e\<in>set entries. \<forall>w'. observe_entry w' e =
         (if 1 / 2 < intersectionRatio e then snd (markSectionVisited (target_id e) w') else w')"
    using d by (simp add: observe_entry_def)
  show ?thesis using a b c e by blast
qed

theorem C8_observer_threshold_witness:
  \<open>visitedSections (sectionObserver
      [\<lparr>isIntersecting = True, intersectionRatio = 3 / 4, target_id = Some (js ''intro'')\<rparr>,
       \<lparr>isIntersecting = True, intersectionRatio = 1 / 2, target_id = Some (js ''basics'')\<rparr>,
       \<lparr>isIntersecting = False, intersectionRatio = 0, target_id = Some (js ''css'')\<rparr>,
       \<lparr>isIntersecting = True, intersectionRatio = 1, target_id = Some (js ''html'')\<rparr>]
      (initial_world 4 Map.empty example_time (\<lambda>_. [])))
     = [JStr (js ''intro''), JStr (js ''html'')]
   \<and> sectionObserver
      [\<lparr>isIntersecting = True, intersectionRatio = 1 / 2, target_id = Some (js ''basics'')\<rparr>,
       \<lparr>isIntersecting = False, intersectionRatio = 0, target_id = Some (js ''css'')\<rparr>]
      (initial_world 4 Map.empty example_time (\<lambda>_. []))
     = initial_world 4 Map.empty example_time (\<lambda>_. [])\<close>
  using C8_observer_threshold
      [of "[\<lparr>isIntersecting = True, intersectionRatio = 3 / 4, target_id = Some (js ''intro'')\<rparr>,
       \<lparr>isIntersecting = True, intersectionRatio = 1 / 2, target_id = Some (js ''basics'')\<rparr>,
       \<lparr>isIntersecting = False, intersectionRatio = 0, target_id = Some (js ''css'')\<rparr>,
       \<lparr>isIntersecting = True, intersectionRatio = 1, target_id = Some (js ''html'')\<rparr>]"
          "initial_world 4 Map.empty example_time (\<lambda>_. [])"]
    C8_observer_threshold
      [of "[\<lparr>isIntersecting = True, intersectionRatio = 1 / 2, target_id = Some (js ''basics'')\<rparr>,
       \<lparr>isIntersecting = False, intersectionRatio = 0, target_id = Some (js ''css'')\<rparr>]"
          "initial_world 4 Map.empty example_time (\<lambda>_. [])"]
  by (simp add: visited_markSectionVisited Set_add_def Set_has_def initial_world_def
      sectionId_value_def js_def)

subsection \<open>Loading the stored record\<close>

text \<open>
  C9. When nothing is stored under the progress key, \<^verbatim>\<open>loadUserProgress\<close> changes nothing and
  logs nothing, and the \<^verbatim>\<open>DOMContentLoaded\<close> handler leaves the set empty.
\<close>

theorem C9_absent_record:
  "localStorage w PROGRESS = None \<Longrightarrow>
   loadUserProgress w = w
   \<and> (visitedSections w = [] \<longrightarrow> visitedSections (DOMContentLoaded w) = [])
   \<and> console (DOMContentLoaded w) = console w"
  by (simp add: loadUserProgress_def DOMContentLoaded_def)

theorem C9_absent_record_witness:
  \<open>localStorage (initial_world 3 Map.empty example_time (\<lambda>_. [])) PROGRESS = None
   \<and> visitedSections (initial_world 3 Map.empty example_time (\<lambda>_. [])) = []
   \<and> loadUserProgress (initial_world 3 Map.empty example_time (\<lambda>_. []))
       = initial_world 3 Map.empty example_time (\<lambda>_. [])
   \<and> visitedSections (DOMContentLoaded (initial_world 3 Map.empty example_time (\<lambda>_. []))) = []
   \<and> console (DOMContentLoaded (initial_world 3 Map.empty example_time (\<lambda>_. []))) = []\<close>
  using C9_absent_record [of "initial_world 3 Map.empty example_time (\<lambda>_. [])"]
  by (simp add: initial_world_def)

lemma JSON_parse_empty: "JSON_parse [] = Inl SyntaxError"
  by (simp add: JSON_parse_def)

text \<open>
  C5 as stated fails. The stored value \<^verbatim>\<open>{"visitedSections":"ab"}\<close> is no persisted record (the
  field is a string, not a sequence of identifiers, and there is no time stamp), yet loading
  it reports no error and yields the set of the two identifiers \<^verbatim>\<open>a\<close> and \<^verbatim>\<open>b\<close>. And a stored
  empty string, which is not JSON either, is skipped like a missing record: nothing is
  reported.
\<close>

theorem C5_wrong_shape_accepted:
  \<open>visitedSections (loadUserProgress
      (initial_world 3 [PROGRESS \<mapsto> js ''{"visitedSections":"ab"}''] example_time (\<lambda>_. [])))
     = [JStr (js ''a''), JStr (js ''b'')]
   \<and> console (loadUserProgress
      (initial_world 3 [PROGRESS \<mapsto> js ''{"visitedSections":"ab"}''] example_time (\<lambda>_. [])))
     = [LogLoaded 2]
   \<and> JSON_parse [] = Inl SyntaxError
   \<and> console (loadUserProgress (initial_world 3 [PROGRESS \<mapsto> []] example_time (\<lambda>_. []))) = []\<close>
proof -
  have p: \<open>JSON_parse (js ''{"visitedSections":"ab"}'')
      = Inr (JObj [(js ''visitedSections'', JStr (js ''ab''))])\<close>
    by code_simp
  have n: \<open>new_Set (JStr (js ''ab'')) = Inr [JStr (js ''a''), JStr (js ''b'')]\<close>
    by code_simp
  have ne: \<open>js ''{"visitedSections":"ab"}'' \<noteq> []\<close> \<open>js ''ab'' \<noteq> []\<close>
    by (simp_all add: js_def)
  have a: \<open>visitedSections (loadUserProgress
      (initial_world 3 [PROGRESS \<mapsto> js ''{"visitedSections":"ab"}''] example_time (\<lambda>_. [])))
     = [JStr (js ''a''), JStr (js ''b'')]\<close>
    using ne
    by (simp add: loadUserProgress_def loadUserProgress_try_def p n initial_world_def
        get_property_def ToBoolean_def updateProgressDisplay_def Let_def)
  have b: \<open>console (loadUserProgress
      (initial_world 3 [PROGRESS \<mapsto> js ''{"visitedSections":"ab"}''] example_time (\<lambda>_. [])))
     = [LogLoaded 2]\<close>
    using ne
    by (simp add: loadUserProgress_def loadUserProgress_try_def p n initial_world_def
        get_property_def ToBoolean_def updateProgressDisplay_def Let_def)
  have c: \<open>console (loadUserProgress (initial_world 3 [PROGRESS \<mapsto> []] example_time (\<lambda>_. []))) = []\<close>
    by (simp add: loadUserProgress_def initial_world_def)
  show ?thesis
    using a b c JSON_parse_empty by simp
qed

lemma loadUserProgress_try_throws:
  "loadUserProgress_try s w = Inl e \<longleftrightarrow>
     JSON_parse s = Inl e
     \<or> (\<exists>p. JSON_parse s = Inr p
          \<and> (get_property p (js ''visitedSections'') = Inl e
             \<or> (\<exists>v. get_property p (js ''visitedSections'') = Inr v
                  \<and> new_Set (if ToBoolean v then v else JArr []) = Inl e)))"
  by (auto simp: loadUserProgress_try_def Let_def split: sum.splits)

text \<open>
  C5, as the code has it. For every non-empty stored value on which the body of the \<^verbatim>\<open>try\<close>
  block throws, \<^verbatim>\<open>loadUserProgress\<close> catches the exception, logs it to the console and leaves
  the state as it was; the \<^verbatim>\<open>DOMContentLoaded\<close> handler completes with the set unchanged
  (empty at start-up). The body throws when \<^verbatim>\<open>JSON.parse\<close> rejects the value (\<^verbatim>\<open>not json\<close>), when
  the value is \<^verbatim>\<open>null\<close>, and when its \<^verbatim>\<open>visitedSections\<close> is truthy and not iterable
  (\<^verbatim>\<open>{"visitedSections":5}\<close>), and in no other case.
\<close>

theorem C5_unparsable_record:
  "localStorage w PROGRESS = Some s \<Longrightarrow> s \<noteq> [] \<Longrightarrow>
   JSON_parse s = Inl e \<or> loadUserProgress_try s w = Inl e \<Longrightarrow>
   loadUserProgress_try s w = Inl e
   \<and> loadUserProgress w = w\<lparr>console := console w @ [LogError e]\<rparr>
   \<and> visitedSections (DOMContentLoaded w) = visitedSections w
   \<and> console (DOMContentLoaded w) = console w @ [LogError e]"
  by (auto simp: loadUserProgress_def loadUserProgress_try_def DOMContentLoaded_def)

theorem C5_unparsable_record_witness:
  \<open>visitedSections (DOMContentLoaded
        (initial_world 3 [PROGRESS \<mapsto> js ''not json''] example_time (\<lambda>_. []))) = []
   \<and> console (DOMContentLoaded
        (initial_world 3 [PROGRESS \<mapsto> js ''not json''] example_time (\<lambda>_. [])))
      = [LogError SyntaxError]
   \<and> visitedSections (DOMContentLoaded
        (initial_world 3 [PROGRESS \<mapsto> js ''null''] example_time (\<lambda>_. []))) = []
   \<and> console (DOMContentLoaded
        (initial_world 3 [PROGRESS \<mapsto> js ''null''] example_time (\<lambda>_. [])))
      = [LogError TypeError]
   \<and> visitedSections (DOMContentLoaded
        (initial_world 3 [PROGRESS \<mapsto> js ''{"visitedSections":5}''] example_time (\<lambda>_. []))) = []
   \<and> console (DOMContentLoaded
        (initial_world 3 [PROGRESS \<mapsto> js ''{"visitedSections":5}''] example_time (\<lambda>_. [])))
      = [LogError TypeError]\<close>
proof -
  have p1: \<open>JSON_parse (js ''not json'') = Inl SyntaxError\<close>
    by code_simp
  have p2: \<open>JSON_parse (js ''null'') = Inr JNull\<close>
    by code_simp
  have p3: \<open>JSON_parse (js ''{"visitedSections":5}'')
      = Inr (JObj [(js ''visitedSections'', JNum (Fin 5))])\<close>
    by code_simp
  have g3: \<open>get_property (JObj [(js ''visitedSections'', JNum (Fin 5))]) (js ''visitedSections'')
      = Inr (JNum (Fin 5))\<close>
    by code_simp
  have t2: \<open>loadUserProgress_try (js ''null'') w = Inl TypeError\<close> for w
    by (simp add: loadUserProgress_try_def p2 get_property_def)
  have t3: \<open>loadUserProgress_try (js ''{"visitedSections":5}'') w = Inl TypeError\<close> for w
    by (simp add: loadUserProgress_try_def p3 g3 ToBoolean_def new_Set_def)
  have ne: \<open>js ''not json'' \<noteq> []\<close> \<open>js ''null'' \<noteq> []\<close> \<open>js ''{"visitedSections":5}'' \<noteq> []\<close>
    by (simp_all add: js_def)
  have st: \<open>localStorage (initial_world 3 [PROGRESS \<mapsto> s] example_time (\<lambda>_. [])) PROGRESS
     = Some s\<close> for s
    by (simp add: initial_world_def)
  show ?thesis
    using C5_unparsable_record [OF st ne(1) disjI1 [OF p1]]
      C5_unparsable_record [OF st ne(2) disjI2 [OF t2]]
      C5_unparsable_record [OF st ne(3) disjI2 [OF t3]]
    by (simp add: initial_world_def)
qed

lemma parse_value_not_undefined:
  "parse_value n s = Parsed v r \<Longrightarrow> v \<noteq> JUndefined"
  by (cases n) (auto split: list.splits option.splits if_splits parsed.splits prod.splits)

lemma JSON_parse_not_undefined: "JSON_parse s = Inr p \<Longrightarrow> p \<noteq> JUndefined"
proof -
  assume a: "JSON_parse s = Inr p"
  have "\<exists>r. parse_value (2 * length s + 2) s = Parsed p r"
    using a unfolding JSON_parse_def
    by (cases "parse_value (2 * length s + 2) s") (simp_all del: parse_value.simps split: if_splits)
  then show ?thesis
    using parse_value_not_undefined by blast
qed

lemma get_property_succeeds:
  "p \<noteq> JUndefined \<Longrightarrow> p \<noteq> JNull \<Longrightarrow> \<exists>v. get_property p k = Inr v"
  by (cases p) (simp_all add: get_property_def)

text \<open>
  C10 as stated fails. The stored value \<^verbatim>\<open>null\<close> parses as JSON and has no \<^verbatim>\<open>visitedSections\<close>
  field, yet reading the field from it throws a \<^verbatim>\<open>TypeError\<close>, which \<^verbatim>\<open>loadUserProgress\<close> catches
  and logs: the load reports an error.
\<close>

theorem C10_stored_null_reports_error:
  \<open>JSON_parse (js ''null'') = Inr JNull
   \<and> get_property JNull (js ''visitedSections'') = Inl TypeError
   \<and> console (loadUserProgress
        (initial_world 3 [PROGRESS \<mapsto> js ''null''] example_time (\<lambda>_. [])))
      = [LogError TypeError]
   \<and> console (DOMContentLoaded
        (initial_world 3 [PROGRESS \<mapsto> js ''null''] example_time (\<lambda>_. [])))
      = [LogError TypeError]\<close>
proof -
  have p: \<open>JSON_parse (js ''null'') = Inr JNull\<close>
    by code_simp
  have ne: \<open>js ''null'' \<noteq> []\<close>
    by (simp add: js_def)
  show ?thesis
    using p ne
    by (simp add: loadUserProgress_def loadUserProgress_try_def DOMContentLoaded_def
        get_property_def initial_world_def)
qed

text \<open>
  C10, as the code has it. When the stored value parses to anything but \<^verbatim>\<open>null\<close>, reading
  \<^verbatim>\<open>visitedSections\<close> from it succeeds; and when the result is \<^verbatim>\<open>undefined\<close> (the field is
  absent) or \<^verbatim>\<open>null\<close>, the empty array takes its place: the set becomes empty and the console
  gets the message of a successful load, no error.
\<close>

theorem C10_missing_field_defaults:
  "localStorage w PROGRESS = Some s \<Longrightarrow> JSON_parse s = Inr p \<Longrightarrow> p \<noteq> JNull \<Longrightarrow>
   (\<exists>v. get_property p (js ''visitedSections'') = Inr v)
   \<and> (get_property p (js ''visitedSections'') = Inr JUndefined
      \<or> get_property p (js ''visitedSections'') = Inr JNull
      \<longrightarrow> visitedSections (loadUserProgress w) = []
          \<and> console (loadUserProgress w) = console w @ [LogLoaded 0])"
proof -
  assume a: "localStorage w PROGRESS = Some s" "JSON_parse s = Inr p" "p \<noteq> JNull"
  have ne: "s \<noteq> []" using a(2) JSON_parse_empty by auto
  have g: "\<exists>v. get_property p (js ''visitedSections'') = Inr v"
    using get_property_succeeds [OF JSON_parse_not_undefined [OF a(2)] a(3)] .
  have d: "visitedSections (loadUserProgress w) = []
      \<and> console (loadUserProgress w) = console w @ [LogLoaded 0]"
    if "get_property p (js ''visitedSections'') = Inr v" "v = JUndefined \<or> v = JNull" for v
  proof -
    have "\<not> ToBoolean v" using that(2) by (auto simp: ToBoolean_def)
    then show ?thesis
      using a(1,2) ne that(1)
      by (simp add: loadUserProgress_def loadUserProgress_try_def new_Set_def
          updateProgressDisplay_def Let_def)
  qed
  show ?thesis using g d by blast
qed

theorem C10_missing_field_defaults_witness:
  \<open>visitedSections (loadUserProgress
      ((initial_world 3 [PROGRESS \<mapsto> js ''{"lastVisited":"2024-01-15T10:30:00.000Z"}'']
          example_time (\<lambda>_. []))
         \<lparr>visitedSections := [JStr (js ''old'')]\<rparr>)) = []
   \<and> console (loadUserProgress
      ((initial_world 3 [PROGRESS \<mapsto> js ''{"lastVisited":"2024-01-15T10:30:00.000Z"}'']
          example_time (\<lambda>_. []))
         \<lparr>visitedSections := [JStr (js ''old'')]\<rparr>)) = [LogLoaded 0]
   \<and> visitedSections (loadUserProgress
      (initial_world 3 [PROGRESS \<mapsto> js ''{"visitedSections":null}''] example_time (\<lambda>_. [])))
     = []\<close>
proof -
  have p1: \<open>JSON_parse (js ''{"lastVisited":"2024-01-15T10:30:00.000Z"}'')
      = Inr (JObj [(js ''lastVisited'', JStr example_time)])\<close>
    by code_simp
  have g1: \<open>get_property (JObj [(js ''lastVisited'', JStr example_time)]) (js ''visitedSections'')
      = Inr JUndefined\<close>
    by code_simp
  have p2: \<open>JSON_parse (js ''{"visitedSections":null}'')
      = Inr (JObj [(js ''visitedSections'', JNull)])\<close>
    by code_simp
  have g2: \<open>get_property (JObj [(js ''visitedSections'', JNull)]) (js ''visitedSections'')
      = Inr JNull\<close>
    by code_simp
  have s1: \<open>localStorage
      ((initial_world 3 [PROGRESS \<mapsto> js ''{"lastVisited":"2024-01-15T10:30:00.000Z"}'']
          example_time (\<lambda>_. []))
         \<lparr>visitedSections := [JStr (js ''old'')]\<rparr>) PROGRESS
      = Some (js ''{"lastVisited":"2024-01-15T10:30:00.000Z"}'')\<close>
    by (simp add: initial_world_def)
  have s2: \<open>localStorage
      (initial_world 3 [PROGRESS \<mapsto> js ''{"visitedSections":null}''] example_time (\<lambda>_. []))
      PROGRESS = Some (js ''{"visitedSections":null}'')\<close>
    by (simp add: initial_world_def)
  show ?thesis
    using C10_missing_field_defaults [OF s1 p1] C10_missing_field_defaults [OF s2 p2] g1 g2
    by (simp add: initial_world_def)
qed

subsection \<open>Round trip through localStorage\<close>

text \<open>
  What \<^verbatim>\<open>JSON.stringify\<close> writes for a string is read back by the parser as the same string:
  first the \<^verbatim>\<open>\u\<close> escapes, then single code points, then whole strings.
\<close>

lemma hex_digits_all: "list_all (\<lambda>d. hex_val (hex_digit d) = Some d) [0..<16]"
  by code_simp

lemma hex_val_hex_digit: "d < 16 \<Longrightarrow> hex_val (hex_digit d) = Some d"
  using hex_digits_all by (simp add: list_all_iff)

lemma hex_split:
  "((n div 4096 * 16 + n div 256 mod 16) * 16 + n div 16 mod 16) * 16 + n mod 16 = (n::nat)"
proof -
  have a: "n div 4096 = n div 256 div 16"
    by (simp add: div_mult2_eq [symmetric])
  have b: "n div 256 = n div 16 div 16"
    by (simp add: div_mult2_eq [symmetric])
  have "n div 4096 * 16 + n div 256 mod 16 = n div 256"
    unfolding a by (rule div_mult_mod_eq)
  moreover have "n div 256 * 16 + n div 16 mod 16 = n div 16"
    unfolding b by (rule div_mult_mod_eq)
  moreover have "n div 16 * 16 + n mod 16 = n"
    by (rule div_mult_mod_eq)
  ultimately show ?thesis by simp
qed

lemma hex4_UnicodeEscape:
  "hex4 (hex_digit (unat c div 4096)) (hex_digit (unat c div 256 mod 16))
        (hex_digit (unat c div 16 mod 16)) (hex_digit (unat c mod 16)) = Some (c :: 16 word)"
proof -
  have "unat c < 65536" using unsigned_less [of c, where ?'a = nat] by simp
  then have "unat c div 4096 < 16" by simp
  then have "hex4 (hex_digit (unat c div 4096)) (hex_digit (unat c div 256 mod 16))
        (hex_digit (unat c div 16 mod 16)) (hex_digit (unat c mod 16))
      = Some (of_nat (((unat c div 4096 * 16 + unat c div 256 mod 16) * 16 + unat c div 16 mod 16) * 16
              + unat c mod 16))"
    by (simp add: hex4_def hex_val_hex_digit del: of_nat_add of_nat_mult)
  then show ?thesis
    by (simp only: hex_split) simp
qed

lemma parse_chars_UnicodeEscape:
  "parse_chars (UnicodeEscape c @ rest) = cons_fst c (parse_chars rest)"
  by (simp add: UnicodeEscape_def Let_def hex4_UnicodeEscape)

lemma parse_chars_quote_unit:
  "parse_chars (quote_code_point [c] @ rest) = cons_fst c (parse_chars rest)"
  by (auto simp: quote_code_point_def parse_chars_UnicodeEscape unescape_def)

lemma surrogate_not_special:
  "0xD800 \<le> (c :: 16 word) \<Longrightarrow> \<not> c < 0x20 \<and> c \<noteq> 0x22 \<and> c \<noteq> 0x5C"
  by (auto simp: word_le_nat_alt word_less_nat_alt)

lemma parse_chars_plain:
  "\<not> c < 0x20 \<Longrightarrow> c \<noteq> 0x22 \<Longrightarrow> c \<noteq> 0x5C \<Longrightarrow>
   parse_chars (c # rest) = cons_fst c (parse_chars rest)"
  by simp

lemma parse_chars_pair:
  assumes "is_high_surrogate c" "is_low_surrogate d"
  shows "parse_chars (quote_code_point [c, d] @ rest) = cons_fst c (cons_fst d (parse_chars rest))"
proof -
  have c: "\<not> c < 0x20 \<and> c \<noteq> 0x22 \<and> c \<noteq> 0x5C"
    using assms(1) surrogate_not_special [of c] by (simp add: is_high_surrogate_def)
  have "0xD800 \<le> d"
    using assms(2) by (auto simp: is_low_surrogate_def word_le_nat_alt)
  then have d: "\<not> d < 0x20 \<and> d \<noteq> 0x22 \<and> d \<noteq> 0x5C"
    by (rule surrogate_not_special)
  show ?thesis
    using c d by (simp add: quote_code_point_def parse_chars_plain del: parse_chars.simps)
qed

lemma parse_chars_close: "parse_chars (0x22 # r) = Some ([], r)"
  by simp

lemma parse_chars_quoted:
  "parse_chars (concat (map quote_code_point (code_points s)) @ 0x22 # r) = Some (s, r)"
proof (induction s rule: code_points.induct)
  case 1
  show ?case by simp
next
  case (2 c)
  show ?case
    by (simp add: parse_chars_quote_unit parse_chars_close cons_fst_def del: parse_chars.simps)
next
  case (3 c d cs)
  show ?case
  proof (cases "is_high_surrogate c \<and> is_low_surrogate d")
    case True
    then have "code_points (c # d # cs) = [c, d] # code_points cs"
      by simp
    then show ?thesis
      using 3(1) [OF True] True
      by (simp add: parse_chars_pair cons_fst_def del: parse_chars.simps code_points.simps)
  next
    case False
    then have "code_points (c # d # cs) = [c] # code_points (d # cs)"
      by auto
    then show ?thesis
      using 3(2) [OF False]
      by (simp add: parse_chars_quote_unit cons_fst_def del: parse_chars.simps code_points.simps)
  qed
qed


lemma parse_value_string:
  "parse_value (Suc n) (QuoteJSONString s @ r) = Parsed (JStr s) r"
  by (simp add: QuoteJSONString_def parse_chars_quoted is_ws_def del: parse_chars.simps)

lemma parse_value_null:
  "parse_value (Suc n) (js ''null'' @ r) = Parsed JNull r"
  by (simp add: js_def is_ws_def)

lemma parse_value_sectionId:
  "parse_value (Suc n)
     ((case SerializeJSONProperty nf (sectionId_value i) of None \<Rightarrow> js ''null'' | Some t \<Rightarrow> t) @ r)
   = Parsed (sectionId_value i) r"
  by (cases i) (simp_all add: sectionId_value_def parse_value_string parse_value_null
      del: parse_value.simps)

lemma sectionId_text_head:
  "\<exists>c cs. (case SerializeJSONProperty nf (sectionId_value i) of None \<Rightarrow> js ''null'' | Some t \<Rightarrow> t)
       = c # cs \<and> \<not> is_ws c \<and> c \<noteq> 0x5D"
  by (cases i) (simp_all add: sectionId_value_def QuoteJSONString_def js_def is_ws_def)

lemma parse_elements_sectionIds:
  "ids \<noteq> [] \<Longrightarrow>
   parse_elements (Suc (length ids + m))
     (join_comma (map (\<lambda>v. case SerializeJSONProperty nf v of None \<Rightarrow> js ''null'' | Some t \<Rightarrow> t)
        (map sectionId_value ids)) @ 0x5D # r)
   = Parsed (map sectionId_value ids) r"
proof (induction ids rule: list_nonempty_induct)
  case (single i)
  show ?case
    by (simp add: parse_value_sectionId is_ws_def del: parse_value.simps)
next
  case (cons i ids)
  then obtain j js where ids: "ids = j # js"
    by (cases ids) auto
  show ?case
    using cons.IH unfolding ids
    by (simp add: parse_value_sectionId is_ws_def del: parse_value.simps)
qed

lemma parse_value_array_sectionIds:
  "parse_value (Suc (Suc (length ids + m)))
     (0x5B # join_comma (map (\<lambda>v. case SerializeJSONProperty nf v of None \<Rightarrow> js ''null'' | Some t \<Rightarrow> t)
        (map sectionId_value ids)) @ 0x5D # r)
   = Parsed (JArr (map sectionId_value ids)) r"
proof (cases ids)
  case Nil
  then show ?thesis by (simp add: is_ws_def)
next
  case (Cons i ids')
  obtain c cs where h:
    "(case SerializeJSONProperty nf (sectionId_value i) of None \<Rightarrow> js ''null'' | Some t \<Rightarrow> t) = c # cs"
    "\<not> is_ws c" "c \<noteq> 0x5D"
    using sectionId_text_head [of nf i] by blast
  have hd: "\<exists>rest. join_comma (map (\<lambda>v. case SerializeJSONProperty nf v of None \<Rightarrow> js ''null'' | Some t \<Rightarrow> t)
        (map sectionId_value ids)) @ 0x5D # r = c # rest"
    unfolding Cons using h(1) by (cases ids') simp_all
  then obtain rest where rest: "join_comma (map (\<lambda>v. case SerializeJSONProperty nf v of None \<Rightarrow> js ''null'' | Some t \<Rightarrow> t)
        (map sectionId_value ids)) @ 0x5D # r = c # rest"
    by blast
  have ne: "ids \<noteq> []" using Cons by simp
  have "parse_elements (Suc (length ids + m)) (c # rest) = Parsed (map sectionId_value ids) r"
    using parse_elements_sectionIds [OF ne, of m nf r] rest by simp
  then show ?thesis
    using h(2,3) rest
    by (simp add: is_ws_def del: parse_elements.simps)
qed


lemma parse_value_object_start:
  "parse_value (Suc n) (0x7B # QuoteJSONString k @ rest)
   = (case parse_members n (QuoteJSONString k @ rest) of
        Parsed ms r \<Rightarrow> Parsed (JObj (make_object ms)) r
      | Bad \<Rightarrow> Bad
      | Fuel \<Rightarrow> Fuel)"
  by (simp add: QuoteJSONString_def is_ws_def del: parse_members.simps)

lemma parse_members_step:
  "parse_members (Suc n) (QuoteJSONString k @ 0x3A # rest)
   = (case parse_value n rest of
        Parsed v r2 \<Rightarrow>
          (case skip_ws r2 of
             [] \<Rightarrow> Bad
           | d # ds \<Rightarrow>
               if d = 0x2C then
                 (case parse_members n ds of
                    Parsed ms r3 \<Rightarrow> Parsed ((k, v) # ms) r3
                  | Bad \<Rightarrow> Bad
                  | Fuel \<Rightarrow> Fuel)
               else if d = 0x7D then Parsed [(k, v)] ds
               else Bad)
      | Bad \<Rightarrow> Bad
      | Fuel \<Rightarrow> Fuel)"
  by (simp add: QuoteJSONString_def parse_chars_quoted is_ws_def
      del: parse_chars.simps parse_value.simps)

lemma make_object_record:
  "make_object [(js ''visitedSections'', a), (js ''lastVisited'', b)]
   = [(js ''visitedSections'', a), (js ''lastVisited'', b)]"
  by (simp add: make_object_def CreateDataProperty_def array_index_def js_def is_digit_def)

lemma saved_text:
  "ToString (JSON_stringify nf (JObj [(js ''visitedSections'', JArr vs), (js ''lastVisited'', JStr t)]))
   = 0x7B # QuoteJSONString (js ''visitedSections'') @ 0x3A # 0x5B #
       join_comma (map (\<lambda>v. case SerializeJSONProperty nf v of None \<Rightarrow> js ''null'' | Some t \<Rightarrow> t) vs)
       @ 0x5D # 0x2C # QuoteJSONString (js ''lastVisited'') @ 0x3A # QuoteJSONString t @ [0x7D]"
  by (simp add: JSON_stringify_def ToString_def)

lemma parse_value_record:
  "parse_value (Suc (Suc (Suc (Suc (length ids + m)))))
     (0x7B # QuoteJSONString (js ''visitedSections'') @ 0x3A # 0x5B #
       join_comma (map (\<lambda>v. case SerializeJSONProperty nf v of None \<Rightarrow> js ''null'' | Some t \<Rightarrow> t)
         (map sectionId_value ids))
       @ 0x5D # 0x2C # QuoteJSONString (js ''lastVisited'') @ 0x3A # QuoteJSONString t @ [0x7D])
   = Parsed (JObj [(js ''visitedSections'', JArr (map sectionId_value ids)),
                   (js ''lastVisited'', JStr t)]) []"
  by (simp add: parse_value_object_start parse_members_step parse_value_array_sectionIds
      parse_value_string make_object_record is_ws_def
      del: parse_value.simps parse_members.simps map_map)

lemma length_join_comma:
  "\<forall>t \<in> set ts. t \<noteq> [] \<Longrightarrow> length ts \<le> length (join_comma ts)"
proof (induction ts rule: join_comma.induct)
  case 1
  show ?case by simp
next
  case (2 x)
  then show ?case by (cases x) simp_all
next
  case (3 x y ys)
  then show ?case by simp
qed

lemma sectionId_text_nonempty:
  "(case SerializeJSONProperty nf (sectionId_value i) of None \<Rightarrow> js ''null'' | Some t \<Rightarrow> t) \<noteq> []"
  using sectionId_text_head [of nf i] by auto

lemma JSON_parse_saved:
  "JSON_parse (ToString (JSON_stringify nf
      (JObj [(js ''visitedSections'', JArr (map sectionId_value ids)), (js ''lastVisited'', JStr t)])))
   = Inr (JObj [(js ''visitedSections'', JArr (map sectionId_value ids)), (js ''lastVisited'', JStr t)])"
proof -
  let ?J = "join_comma (map (\<lambda>v. case SerializeJSONProperty nf v of None \<Rightarrow> js ''null'' | Some t \<Rightarrow> t)
         (map sectionId_value ids))"
  let ?T = "0x7B # QuoteJSONString (js ''visitedSections'') @ 0x3A # 0x5B # ?J
       @ 0x5D # 0x2C # QuoteJSONString (js ''lastVisited'') @ 0x3A # QuoteJSONString t @ [0x7D]"
  have "length (map (\<lambda>v. case SerializeJSONProperty nf v of None \<Rightarrow> js ''null'' | Some t \<Rightarrow> t)
         (map sectionId_value ids)) \<le> length ?J"
    by (rule length_join_comma) (auto simp: sectionId_text_nonempty)
  then have "length ids + 2 \<le> 2 * length ?T"
    by (simp del: map_map)
  then have "2 * length ?T + 2 = Suc (Suc (Suc (Suc (length ids + (2 * length ?T - length ids - 2)))))"
    by arith
  then obtain m where m: "2 * length ?T + 2 = Suc (Suc (Suc (Suc (length ids + m))))"
    by blast
  have p: "parse_value (2 * length ?T + 2) ?T
      = Parsed (JObj [(js ''visitedSections'', JArr (map sectionId_value ids)),
                   (js ''lastVisited'', JStr t)]) []"
    unfolding m by (rule parse_value_record)
  have "JSON_parse ?T
      = Inr (JObj [(js ''visitedSections'', JArr (map sectionId_value ids)),
                   (js ''lastVisited'', JStr t)])"
    unfolding JSON_parse_def p by simp
  then show ?thesis
    unfolding saved_text .
qed

lemma foldl_Set_add_distinct:
  "distinct (acc @ vs) \<Longrightarrow> foldl Set_add acc vs = acc @ vs"
  by (induction vs arbitrary: acc) (auto simp: Set_add_def Set_has_def)


lemma sectionId_values_map:
  "set vs \<subseteq> range sectionId_value \<Longrightarrow> \<exists>ids. vs = map sectionId_value ids"
  by (induction vs) (auto simp: Cons_eq_map_conv)

text \<open>
  C3. A visited set as \<^verbatim>\<open>markSectionVisited\<close> builds it (distinct identifiers, each a string
  or \<^verbatim>\<open>null\<close>) survives persistence: when the record written by \<^verbatim>\<open>saveUserProgress\<close> is what a
  later page load finds in \<^verbatim>\<open>localStorage\<close>, \<^verbatim>\<open>loadUserProgress\<close> restores exactly the same
  identifiers, in the same order, in whatever state it starts, and logs a successful load.
\<close>

theorem C3_save_load_roundtrip:
  assumes "distinct (visitedSections w)"
    and "set (visitedSections w) \<subseteq> range sectionId_value"
  shows "visitedSections (loadUserProgress (w'\<lparr>localStorage := localStorage (saveUserProgress w)\<rparr>))
           = visitedSections w
         \<and> console (loadUserProgress (w'\<lparr>localStorage := localStorage (saveUserProgress w)\<rparr>))
           = console w' @ [LogLoaded (length (visitedSections w))]"
proof -
  obtain ids where ids: "visitedSections w = map sectionId_value ids"
    using sectionId_values_map [OF assms(2)] by blast
  let ?rec = "JObj [(js ''visitedSections'', JArr (map sectionId_value ids)),
                    (js ''lastVisited'', JStr (clock w))]"
  let ?s = "ToString (JSON_stringify (NumberToString w) ?rec)"
  have st: "localStorage (saveUserProgress w) PROGRESS = Some ?s"
    by (simp add: saveUserProgress_def Let_def ids)
  have ne: "?s \<noteq> []"
    unfolding saved_text by simp
  have parse: "JSON_parse ?s = Inr ?rec"
    by (rule JSON_parse_saved)
  have get: "get_property ?rec (js ''visitedSections'') = Inr (JArr (map sectionId_value ids))"
    by (simp add: get_property_def)
  have set: "new_Set (JArr (map sectionId_value ids)) = Inr (map sectionId_value ids)"
    using foldl_Set_add_distinct [of "[]" "map sectionId_value ids"] assms(1)
    by (simp add: new_Set_def ids)
  have "loadUserProgress_try ?s (w'\<lparr>localStorage := localStorage (saveUserProgress w)\<rparr>)
      = Inr (w'\<lparr>localStorage := localStorage (saveUserProgress w),
               visitedSections := map sectionId_value ids,
               completedSections := Some (length ids),
               progressPercentage := Some (Math_round (times100 (divide (length ids) (sections_length w')))),
               console := console w' @ [LogLoaded (length ids)]\<rparr>)"
    unfolding loadUserProgress_try_def parse
    by (simp add: get ToBoolean_def set updateProgressDisplay_def Let_def del: map_map)
  then show ?thesis
    using st ne by (simp add: loadUserProgress_def ids)
qed

theorem C3_save_load_roundtrip_witness:
  \<open>distinct [JStr (js ''intro''), JNull, JStr [0x22, 0xD800, 0x0A]]
   \<and> set [JStr (js ''intro''), JNull, JStr [0x22, 0xD800, 0x0A]] \<subseteq> range sectionId_value
   \<and> visitedSections (loadUserProgress
        ((initial_world 3 Map.empty (js ''t2'') (\<lambda>_. []))
         \<lparr>localStorage := localStorage (saveUserProgress
            ((initial_world 3 Map.empty (js ''t1'') (\<lambda>_. []))
              \<lparr>visitedSections := [JStr (js ''intro''), JNull, JStr [0x22, 0xD800, 0x0A]]\<rparr>))\<rparr>))
      = [JStr (js ''intro''), JNull, JStr [0x22, 0xD800, 0x0A]]\<close>
proof -
  have d: \<open>distinct (visitedSections ((initial_world 3 Map.empty (js ''t1'') (\<lambda>_. []))
              \<lparr>visitedSections := [JStr (js ''intro''), JNull, JStr [0x22, 0xD800, 0x0A]]\<rparr>))\<close>
    by (simp add: js_def)
  have e: \<open>visitedSections ((initial_world 3 Map.empty (js ''t1'') (\<lambda>_. []))
              \<lparr>visitedSections := [JStr (js ''intro''), JNull, JStr [0x22, 0xD800, 0x0A]]\<rparr>)
      = map sectionId_value [Some (js ''intro''), None, Some [0x22, 0xD800, 0x0A]]\<close>
    by (simp add: sectionId_value_def)
  have r: \<open>set (visitedSections ((initial_world 3 Map.empty (js ''t1'') (\<lambda>_. []))
              \<lparr>visitedSections := [JStr (js ''intro''), JNull, JStr [0x22, 0xD800, 0x0A]]\<rparr>))
       \<subseteq> range sectionId_value\<close>
    unfolding e by auto
  show ?thesis
    using C3_save_load_roundtrip [OF d r, of "initial_world 3 Map.empty (js ''t2'') (\<lambda>_. [])"] d r
    by simp
qed

subsection \<open>The percentage shown\<close>




























end
